theory Spec2Isabelle
  imports Main
begin

section \<open>Values, errors and the evaluation environment\<close>

text \<open>
  The values that live on the evaluation stack are the JSON-like Python objects the
  interpreter passes around. A Python \<open>str\<close> is modelled as a \<open>string\<close> whose
  characters are the code points below 256; \<open>isinstance(v, str)\<close> is \<open>is_str v\<close>.
\<close>

datatype val =
    JNull
  | JBool bool
  | JNum int
  | JStr string
  | JArr "val list"
  | JObj "(string \<times> val) list"

fun is_str :: "val \<Rightarrow> bool" where
  "is_str (JStr s) = True"
| "is_str v = False"

text \<open>The characters a \<open>for c in v\<close> loop visits when \<open>v\<close> is a \<open>str\<close>
  (the loop of the source is only reached behind the \<open>isinstance\<close> guard).\<close>

fun str_chars :: "val \<Rightarrow> string" where
  "str_chars (JStr s) = s"
| "str_chars v = []"

text \<open>
  Every \<open>raise\<close> is a value. \<open>ValueError\<close> is raised by the function itself,
  \<open>IndexError\<close> by \<open>list.pop\<close> on an empty list, \<open>TypeError\<close> and
  \<open>ReError\<close> (\<open>re.error\<close>) by the regular-expression library. \<open>Unmodelled\<close>
  is not a Python exception: it marks pattern syntax outside the fragment of the pattern
  language that is modelled below (lemma \<open>re_compile_pattern_modelled\<close> shows that the
  patterns built by the function never reach it).
\<close>

datatype error = ValueError | TypeError | IndexError | ReError | Unmodelled

text \<open>Modelled from the spec: the class \<open>Environment\<close> is not part of the sources at
  hand; the spec gives it a current document and an evaluation stack, a Python list whose
  end is the top.\<close>

record Environment =
  inp :: val
  stack :: "val list"

type_synonym 'a outcome = "(error + 'a) \<times> Environment"

definition stack_append :: "val \<Rightarrow> Environment \<Rightarrow> Environment" where
  "stack_append v env = env\<lparr>stack := stack env @ [v]\<rparr>"

definition stack_pop :: "Environment \<Rightarrow> val outcome" where
  "stack_pop env =
     (if stack env = [] then (Inl IndexError, env)
      else (Inr (last (stack env)), env\<lparr>stack := butlast (stack env)\<rparr>))"

section \<open>The pattern language of \<open>re\<close>, as far as the function can reach it\<close>

text \<open>
  The library module \<open>re\<close> is modelled as CPython 3.7 to 3.13 behave: an ASCII
  letter after a backslash that names no escape is an error, \<open>split\<close> also splits
  at empty matches, and the word-boundary assertions fail on the empty subject.
\<close>

definition backslash :: char where
  "backslash = CHR 0x5C"

definition ASCII_LETTERS :: string where
  "ASCII_LETTERS = ''abcdefghijklmnopqrstuvwxyzABCDEFGHIJKLMNOPQRSTUVWXYZ''"

definition DIGITS :: string where
  "DIGITS = ''0123456789''"

definition OCTDIGITS :: string where
  "OCTDIGITS = ''01234567''"

definition HEXDIGITS :: string where
  "HEXDIGITS = ''0123456789abcdefABCDEF''"

definition SPECIAL_CHARS :: string where
  "SPECIAL_CHARS = [CHR ''.'', backslash, CHR ''['', CHR ''{'', CHR ''('', CHR '')'',
                    CHR ''*'', CHR ''+'', CHR ''?'', CHR ''^'', CHR ''$'', CHR ''|'']"

datatype category = Category_Digit | Category_Not_Digit | Category_Space
  | Category_Not_Space | Category_Word | Category_Not_Word

datatype at_code = At_Beginning_String | At_Boundary | At_Non_Boundary | At_End_String

datatype atom = Literal char | In_Category category | At at_code

type_synonym regex = "atom list list"

text \<open>
  \<open>escape c rest\<close> is what the pattern parser makes of the two characters
  backslash, \<open>c\<close> when \<open>rest\<close> is the pattern text after them: the category and
  position escapes first, then the control-character escapes, then the numeric and named
  escapes, then "bad escape" for every other ASCII letter, and the character itself for
  everything else. The numeric escapes that would read further characters from
  \<open>rest\<close> are outside the model.
\<close>

definition escape :: "char \<Rightarrow> string \<Rightarrow> error + atom" where
  "escape c rest =
     (if c = CHR ''A'' then Inr (At At_Beginning_String)
      else if c = CHR ''b'' then Inr (At At_Boundary)
      else if c = CHR ''B'' then Inr (At At_Non_Boundary)
      else if c = CHR ''d'' then Inr (In_Category Category_Digit)
      else if c = CHR ''D'' then Inr (In_Category Category_Not_Digit)
      else if c = CHR ''s'' then Inr (In_Category Category_Space)
      else if c = CHR ''S'' then Inr (In_Category Category_Not_Space)
      else if c = CHR ''w'' then Inr (In_Category Category_Word)
      else if c = CHR ''W'' then Inr (In_Category Category_Not_Word)
      else if c = CHR ''Z'' then Inr (At At_End_String)
      else if c = CHR ''a'' then Inr (Literal (CHR 0x07))
      else if c = CHR ''f'' then Inr (Literal (CHR 0x0C))
      else if c = CHR ''n'' then Inr (Literal (CHR 0x0A))
      else if c = CHR ''r'' then Inr (Literal (CHR 0x0D))
      else if c = CHR ''t'' then Inr (Literal (CHR 0x09))
      else if c = CHR ''v'' then Inr (Literal (CHR 0x0B))
      else if c = backslash then Inr (Literal backslash)
      else if c = CHR ''x'' \<or> c = CHR ''u'' \<or> c = CHR ''U'' then
        (case rest of
           [] \<Rightarrow> Inl ReError
         | h # t \<Rightarrow> if h \<in> set HEXDIGITS then Inl Unmodelled else Inl ReError)
      else if c = CHR ''N'' then
        (case rest of
           [] \<Rightarrow> Inl ReError
         | h # t \<Rightarrow> if h = CHR ''{'' then Inl Unmodelled else Inl ReError)
      else if c = CHR ''0'' then
        (case rest of
           [] \<Rightarrow> Inr (Literal (CHR 0x00))
         | h # t \<Rightarrow> if h \<in> set OCTDIGITS then Inl Unmodelled else Inr (Literal (CHR 0x00)))
      else if c \<in> set DIGITS then
        (case rest of
           [] \<Rightarrow> Inl ReError
         | h # t \<Rightarrow> if h \<in> set DIGITS then Inl Unmodelled else Inl ReError)
      else if c \<in> set ASCII_LETTERS then Inl ReError
      else Inr (Literal c))"

text \<open>
  The parser reads the pattern left to right. \<open>cur\<close> holds, reversed, the atoms of the
  alternative being read; an unescaped bar closes it. The empty pattern is the single
  empty alternative. Repetition, groups, sets and anchors written without a backslash
  are outside the model.
\<close>

fun parse :: "string \<Rightarrow> atom list \<Rightarrow> error + regex" where
  "parse [] cur = Inr [rev cur]"
| "parse [c] cur =
     (if c = CHR ''|'' then Inr [rev cur, []]
      else if c = backslash then Inl ReError
      else if c = CHR '')'' then Inl ReError
      else if c \<in> set SPECIAL_CHARS then Inl Unmodelled
      else Inr [rev (Literal c # cur)])"
| "parse (c # e # cs) cur =
     (if c = CHR ''|'' then
        (case parse (e # cs) [] of Inl err \<Rightarrow> Inl err | Inr bs \<Rightarrow> Inr (rev cur # bs))
      else if c = backslash then
        (case escape e cs of Inl err \<Rightarrow> Inl err | Inr a \<Rightarrow> parse cs (a # cur))
      else if c = CHR '')'' then Inl ReError
      else if c \<in> set SPECIAL_CHARS then Inl Unmodelled
      else parse (e # cs) (Literal c # cur))"

definition re_compile :: "string \<Rightarrow> error + regex" where
  "re_compile pattern = parse pattern []"

section \<open>Matching\<close>

text \<open>
  The character classes of a \<open>str\<close> pattern are the Unicode ones; on the code points
  below 256 they are the following.
\<close>

definition uni_isdecimal :: "char \<Rightarrow> bool" where
  "uni_isdecimal c \<longleftrightarrow> c \<in> set DIGITS"

definition uni_isspace :: "char \<Rightarrow> bool" where
  "uni_isspace c \<longleftrightarrow>
     (let n = (of_char c :: nat)
      in (9 \<le> n \<and> n \<le> 13) \<or> (28 \<le> n \<and> n \<le> 32) \<or> n = 133 \<or> n = 160)"

definition uni_isalnum :: "char \<Rightarrow> bool" where
  "uni_isalnum c \<longleftrightarrow>
     (let n = (of_char c :: nat)
      in c \<in> set ASCII_LETTERS \<or> c \<in> set DIGITS
         \<or> n = 170 \<or> n = 178 \<or> n = 179 \<or> n = 181 \<or> n = 185 \<or> n = 186
         \<or> n = 188 \<or> n = 189 \<or> n = 190
         \<or> (192 \<le> n \<and> n \<le> 214) \<or> (216 \<le> n \<and> n \<le> 246) \<or> 248 \<le> n)"

definition uni_is_word :: "char \<Rightarrow> bool" where
  "uni_is_word c \<longleftrightarrow> uni_isalnum c \<or> c = CHR ''_''"

fun in_category :: "category \<Rightarrow> char \<Rightarrow> bool" where
  "in_category Category_Digit c = uni_isdecimal c"
| "in_category Category_Not_Digit c = (\<not> uni_isdecimal c)"
| "in_category Category_Space c = uni_isspace c"
| "in_category Category_Not_Space c = (\<not> uni_isspace c)"
| "in_category Category_Word c = uni_is_word c"
| "in_category Category_Not_Word c = (\<not> uni_is_word c)"

text \<open>
  A position in the subject is the character before it (\<open>None\<close> at the beginning of
  the string) and the text from it on. \<open>that_word\<close> and \<open>this_word\<close> are the two
  tests of the word-boundary assertions; both assertions fail on the empty subject.
\<close>

type_synonym pos = "char option \<times> string"

fun that_word :: "char option \<Rightarrow> bool" where
  "that_word None = False"
| "that_word (Some c) = uni_is_word c"

fun this_word :: "string \<Rightarrow> bool" where
  "this_word [] = False"
| "this_word (c # cs) = uni_is_word c"

fun at :: "at_code \<Rightarrow> pos \<Rightarrow> bool" where
  "at At_Beginning_String (prev, rest) = (prev = None)"
| "at At_End_String (prev, rest) = (rest = [])"
| "at At_Boundary (prev, rest) =
     (if prev = None \<and> rest = [] then False else this_word rest \<noteq> that_word prev)"
| "at At_Non_Boundary (prev, rest) =
     (if prev = None \<and> rest = [] then False else this_word rest = that_word prev)"

fun match_atom :: "atom \<Rightarrow> pos \<Rightarrow> pos option" where
  "match_atom (Literal c) (prev, []) = None"
| "match_atom (Literal c) (prev, x # xs) = (if x = c then Some (Some x, xs) else None)"
| "match_atom (In_Category k) (prev, []) = None"
| "match_atom (In_Category k) (prev, x # xs) =
     (if in_category k x then Some (Some x, xs) else None)"
| "match_atom (At a) p = (if at a p then Some p else None)"

fun match_seq :: "atom list \<Rightarrow> pos \<Rightarrow> pos option" where
  "match_seq [] p = Some p"
| "match_seq (a # as) p =
     (case match_atom a p of None \<Rightarrow> None | Some p' \<Rightarrow> match_seq as p')"

text \<open>
  The alternatives are tried in order. With \<open>must_advance\<close> set, an alternative that
  matches without consuming a character is given up and the next one is tried.
\<close>

fun match_branch :: "regex \<Rightarrow> bool \<Rightarrow> pos \<Rightarrow> pos option" where
  "match_branch [] must_advance p = None"
| "match_branch (b # bs) must_advance p =
     (case match_seq b p of
        None \<Rightarrow> match_branch bs must_advance p
      | Some p' \<Rightarrow>
          if must_advance \<and> length (snd p') = length (snd p)
          then match_branch bs must_advance p
          else Some p')"

text \<open>
  \<open>search\<close> tries the position it is given, then each later one up to and including
  the end of the subject; \<open>must_advance\<close> only binds at the first. It returns the text
  skipped before the match, the position after the match, and whether the match was
  empty.
\<close>

fun search :: "regex \<Rightarrow> bool \<Rightarrow> char option \<Rightarrow> string \<Rightarrow> (string \<times> pos \<times> bool) option" where
  "search rx must_advance prev [] =
     (case match_branch rx must_advance (prev, []) of
        None \<Rightarrow> None
      | Some p' \<Rightarrow> Some ([], p', True))"
| "search rx must_advance prev (x # xs) =
     (case match_branch rx must_advance (prev, x # xs) of
        Some p' \<Rightarrow> Some ([], p', length (snd p') = length (x # xs))
      | None \<Rightarrow>
          (case search rx False (Some x) xs of
             None \<Rightarrow> None
           | Some (skipped, p', e) \<Rightarrow> Some (x # skipped, p', e)))"

text \<open>
  \<open>re.split\<close> with no limit and a pattern without groups: search from the end of the
  previous match, emit the text before the match, go on behind the match, and set
  \<open>must_advance\<close> when the match was empty; when the search fails, emit the rest.
\<close>

function split_loop :: "regex \<Rightarrow> bool \<Rightarrow> char option \<Rightarrow> string \<Rightarrow> string list" where
  "split_loop rx must_advance prev rest =
     (case search rx must_advance prev rest of
        None \<Rightarrow> [rest]
      | Some (item, (prev', rest'), e) \<Rightarrow> item # split_loop rx e prev' rest')"
  by pat_completeness auto
text \<open>\<open>re.split(pattern, string)\<close>: the pattern is compiled first, then the subject
  must be a \<open>str\<close>.\<close>

definition re_split :: "string \<Rightarrow> val \<Rightarrow> error + string list" where
  "re_split pattern string =
     (case re_compile pattern of
        Inl err \<Rightarrow> Inl err
      | Inr rx \<Rightarrow>
          (case string of
             JStr s \<Rightarrow> Inr (split_loop rx False None s)
           | _ \<Rightarrow> Inl TypeError))"

section \<open>Function arguments\<close>

text \<open>Modelled from the spec: the class \<open>FunctionArgumentList\<close> and the argument
  classes are not part of the sources at hand. An argument is a component whose
  evaluation acts on the environment and may raise; the list evaluates its arguments
  left to right and stops at the first that raises; its \<open>size\<close> is the number of
  arguments.\<close>

type_synonym eval_component = "Environment \<Rightarrow> unit outcome"

type_synonym FunctionArgumentList = "eval_component list"

definition arg_list_size :: "FunctionArgumentList \<Rightarrow> nat" where
  "arg_list_size arg_list = length arg_list"

fun arg_list_eval :: "FunctionArgumentList \<Rightarrow> Environment \<Rightarrow> unit outcome" where
  "arg_list_eval [] env = (Inr (), env)"
| "arg_list_eval (a # as) env =
     (case a env of
        (Inl err, env') \<Rightarrow> (Inl err, env')
      | (Inr u, env') \<Rightarrow> arg_list_eval as env')"

text \<open>A literal argument pushes its value.\<close>

definition literal_arg :: "val \<Rightarrow> eval_component" where
  "literal_arg v env = (Inr (), stack_append v env)"

text \<open>
  "The evaluation of the arguments pushes exactly one value per argument", said of one
  evaluation, the one that starts in the environment given: each argument in turn, in the
  environment the arguments before it have left, returns normally and leaves the stack
  one value longer, the entries it found unchanged. Nothing is asked of an argument in
  any other environment.
\<close>

fun pushes_one_each :: "FunctionArgumentList \<Rightarrow> Environment \<Rightarrow> bool" where
  "pushes_one_each [] env = True"
| "pushes_one_each (a # as) env =
     (case a env of
        (Inl err, env') \<Rightarrow> False
      | (Inr u, env') \<Rightarrow>
          stack env' \<noteq> [] \<and> butlast (stack env') = stack env \<and> pushes_one_each as env')"

section \<open>\<open>StringSplit\<close>\<close>

datatype StatesFunctionNameType = StringSplitName

record StringSplit =
  states_name :: StatesFunctionNameType
  arg_list :: FunctionArgumentList

text \<open>The constructor. Modelled from the spec: the base class \<open>StatesFunction\<close>
  is not part of the sources at hand; its constructor is taken to store the name and the
  argument list and not to raise. Then the arity is checked.\<close>

definition StringSplit_init :: "FunctionArgumentList \<Rightarrow> error + StringSplit" where
  "StringSplit_init al =
     (let self = \<lparr>states_name = StringSplitName, arg_list = al\<rparr>
      in if arg_list_size al \<noteq> 2 then Inl ValueError else Inr self)"

fun join :: "string \<Rightarrow> string list \<Rightarrow> string" where
  "join sep [] = []"
| "join sep [x] = x"
| "join sep (x # y # ys) = x @ sep @ join sep (y # ys)"

text \<open>The loop \<open>for c in del_chars: patterns.append(f"\\{c}")\<close>.\<close>

fun patterns_loop :: "string \<Rightarrow> string list \<Rightarrow> string list" where
  "patterns_loop [] patterns = patterns"
| "patterns_loop (c # cs) patterns = patterns_loop cs (patterns @ [[backslash, c]])"

definition pattern_of :: "string \<Rightarrow> string" where
  "pattern_of del_chars = join ''|'' (patterns_loop del_chars [])"

text \<open>
  \<open>_eval_body\<close>. The environment is returned as the code left it, also when an
  exception is raised. The second guard tests \<open>del_chars\<close> again, as the source does.
\<close>

definition eval_body :: "StringSplit \<Rightarrow> Environment \<Rightarrow> unit outcome" where
  "eval_body self env =
     (case arg_list_eval (arg_list self) env of
        (Inl err, env1) \<Rightarrow> (Inl err, env1)
      | (Inr u, env1) \<Rightarrow>
     (case stack_pop env1 of
        (Inl err, env2) \<Rightarrow> (Inl err, env2)
      | (Inr del_chars, env2) \<Rightarrow>
          if \<not> is_str del_chars then (Inl ValueError, env2)
          else
     (case stack_pop env2 of
        (Inl err, env3) \<Rightarrow> (Inl err, env3)
      | (Inr string, env3) \<Rightarrow>
          if \<not> is_str del_chars then (Inl ValueError, env3)
          else
     (case re_split (pattern_of (str_chars del_chars)) string of
        Inl err \<Rightarrow> (Inl err, env3)
      | Inr parts \<Rightarrow> (Inr (), stack_append (JArr (map JStr parts)) env3)))))"

text \<open>
  What the specification asks of the function, in its own words: the subject is cut at
  every occurrence of any character of the delimiter string.
\<close>

fun spec_split :: "string \<Rightarrow> string \<Rightarrow> string list" where
  "spec_split d [] = [[]]"
| "spec_split d (x # xs) =
     (if x \<in> set d then [] # spec_split d xs
      else (x # hd (spec_split d xs)) # tl (spec_split d xs))"

text \<open>The delimiter characters that a backslash leaves as they are: everything but the
  ASCII letters and digits.\<close>

definition plain :: "char \<Rightarrow> bool" where
  "plain c \<longleftrightarrow> c \<notin> set ASCII_LETTERS \<and> c \<notin> set DIGITS"

section \<open>Termination of the split loop\<close>

lemma match_atom_length: "match_atom a p = Some p' \<Longrightarrow> length (snd p') \<le> length (snd p)"
  by (cases "(a, p)" rule: match_atom.cases) (auto split: if_splits)

lemma match_seq_length: "match_seq as p = Some p' \<Longrightarrow> length (snd p') \<le> length (snd p)"
proof (induction as arbitrary: p)
  case Nil
  then show ?case by simp
next
  case (Cons a as)
  then obtain q where q: "match_atom a p = Some q" and r: "match_seq as q = Some p'"
    by (auto split: option.splits)
  from match_atom_length [OF q] Cons.IH [OF r] show ?case by simp
qed

lemma match_branch_length:
  "match_branch rx adv p = Some p' \<Longrightarrow>
     length (snd p') \<le> length (snd p) \<and> (adv \<longrightarrow> length (snd p') < length (snd p))"
proof (induction rx)
  case Nil
  then show ?case by simp
next
  case (Cons b bs)
  show ?case
  proof (cases "match_seq b p")
    case None
    with Cons show ?thesis by simp
  next
    case (Some q)
    from match_seq_length [OF Some] have le: "length (snd q) \<le> length (snd p)" .
    show ?thesis
    proof (cases "adv \<and> length (snd q) = length (snd p)")
      case True
      with Cons Some show ?thesis by simp
    next
      case False
      with Cons.prems Some have "p' = q" by (auto split: if_splits)
      with le False show ?thesis by auto
    qed
  qed
qed

lemma search_length:
  "search rx adv prev rest = Some (skipped, p', e) \<Longrightarrow>
     length (snd p') \<le> length rest
     \<and> (adv \<or> \<not> e \<longrightarrow> length (snd p') < length rest)
     \<and> (\<not> adv \<and> e \<longrightarrow> length (snd p') + length skipped = length rest)"
proof (induction rest arbitrary: adv prev skipped p' e)
  case Nil
  then show ?case
    by (auto split: option.splits dest: match_branch_length)
next
  case (Cons x xs)
  show ?case
  proof (cases "match_branch rx adv (prev, x # xs)")
    case (Some q)
    with Cons.prems have eq: "skipped = []" "p' = q" "e = (length (snd q) = length (x # xs))"
      by auto
    from match_branch_length [OF Some] eq show ?thesis by auto
  next
    case None
    with Cons.prems obtain sk where
      s: "search rx False (Some x) xs = Some (sk, p', e)" and sk: "skipped = x # sk"
      by (auto split: option.splits)
    from Cons.IH [OF s] sk show ?thesis by auto
  qed
qed

termination split_loop
proof (relation "measure (\<lambda>(rx, adv, prev, rest). 2 * length rest + (if adv then 0 else 1))",
    goal_cases)
  case 1
  show ?case by simp
next
  case (2 rx must_advance prev rest x2 item y p' e prev' rest')
  then have "search rx must_advance prev rest = Some (item, (prev', rest'), e)"
    by simp
  from search_length [OF this] show ?case
    by (auto split: if_splits)
qed

declare split_loop.simps [simp del]

section \<open>The patterns the function builds\<close>

lemma patterns_loop_eq: "patterns_loop d acc = acc @ map (\<lambda>c. [backslash, c]) d"
  by (induction d arbitrary: acc) auto

lemma pattern_of_eq: "pattern_of d = join ''|'' (map (\<lambda>c. [backslash, c]) d)"
  by (simp add: pattern_of_def patterns_loop_eq)

lemma escape_bar: "escape c (CHR ''|'' # r) = escape c []"
  by (simp add: escape_def HEXDIGITS_def OCTDIGITS_def DIGITS_def)

lemma escape_plain: "plain c \<Longrightarrow> escape c r = Inr (Literal c)"
  by (simp add: plain_def escape_def ASCII_LETTERS_def DIGITS_def)

lemma escape_end_modelled: "escape c [] \<noteq> Inl Unmodelled"
  by (simp add: escape_def)

lemma bar_not_backslash: "CHR ''|'' \<noteq> backslash" "backslash \<noteq> CHR ''|''"
  by (simp_all add: backslash_def)

lemma join_escapes_Cons:
  "join ''|'' (map (\<lambda>c. [backslash, c]) (c # c' # d)) =
     backslash # c # CHR ''|'' # join ''|'' (map (\<lambda>c. [backslash, c]) (c' # d))"
  by simp

lemma join_escapes_nonempty:
  "join ''|'' (map (\<lambda>c. [backslash, c]) (c # d)) =
     backslash # c # tl (tl (join ''|'' (map (\<lambda>c. [backslash, c]) (c # d))))"
  by (cases d) simp_all

lemma parse_bar:
  "parse (CHR ''|'' # backslash # r) cur =
     (case parse (backslash # r) [] of Inl err \<Rightarrow> Inl err | Inr bs \<Rightarrow> Inr (rev cur # bs))"
  by simp

lemma parse_escape_end: "parse [backslash, c] cur =
     (case escape c [] of Inl err \<Rightarrow> Inl err | Inr a \<Rightarrow> Inr [rev (a # cur)])"
  by (simp add: bar_not_backslash split: sum.splits)

lemma parse_escape_bar: "parse (backslash # c # CHR ''|'' # backslash # r) cur =
     (case escape c [] of Inl err \<Rightarrow> Inl err
      | Inr a \<Rightarrow> (case parse (backslash # r) [] of Inl err \<Rightarrow> Inl err | Inr bs \<Rightarrow> Inr (rev (a # cur) # bs)))"
  by (simp add: bar_not_backslash escape_bar split: sum.splits)

lemma parse_pattern_modelled:
  "parse (join ''|'' (map (\<lambda>c. [backslash, c]) d)) cur \<noteq> Inl Unmodelled"
proof (induction d arbitrary: cur)
  case Nil
  show ?case by simp
next
  case (Cons c d)
  show ?case
  proof (cases d)
    case Nil
    then show ?thesis
      using escape_end_modelled [of c]
      by (simp only: list.map join.simps parse_escape_end split: sum.splits) auto
  next
    case (Cons c' d')
    have "join ''|'' (map (\<lambda>c. [backslash, c]) (c' # d')) =
            backslash # tl (join ''|'' (map (\<lambda>c. [backslash, c]) (c' # d')))"
      by (cases d') simp_all
    then obtain r where r: "join ''|'' (map (\<lambda>c. [backslash, c]) d) = backslash # r"
      using Cons by blast
    have "parse (backslash # r) [] \<noteq> Inl Unmodelled"
      using Cons.IH [of "[]"] r by simp
    then show ?thesis
      using escape_end_modelled [of c] r Cons
      by (simp only: join_escapes_Cons parse_escape_bar split: sum.splits) auto
  qed
qed

lemma re_compile_pattern_modelled: "re_compile (pattern_of d) \<noteq> Inl Unmodelled"
  by (simp add: re_compile_def pattern_of_eq parse_pattern_modelled)

lemma parse_pattern_plain:
  "plain c \<Longrightarrow> \<forall>x\<in>set d. plain x \<Longrightarrow>
     parse (join ''|'' (map (\<lambda>c. [backslash, c]) (c # d))) cur =
       Inr (rev (Literal c # cur) # map (\<lambda>c. [Literal c]) d)"
proof (induction d arbitrary: c cur)
  case Nil
  then show ?case
    by (simp only: list.map join.simps parse_escape_end escape_plain) simp
next
  case (Cons c' d)
  have "join ''|'' (map (\<lambda>c. [backslash, c]) (c' # d)) =
          backslash # tl (join ''|'' (map (\<lambda>c. [backslash, c]) (c' # d)))"
    by (cases d) simp_all
  then obtain r where r: "join ''|'' (map (\<lambda>c. [backslash, c]) (c' # d)) = backslash # r"
    by blast
  from Cons.prems have pc: "plain c'" and pd: "\<forall>x\<in>set d. plain x"
    by simp_all
  have "parse (backslash # r) [] = Inr ([Literal c'] # map (\<lambda>c. [Literal c]) d)"
    using Cons.IH [OF pc pd, of "[]"] r by simp
  then show ?case
    using Cons.prems(1) r
    by (simp only: join_escapes_Cons parse_escape_bar escape_plain) simp
qed

lemma re_compile_plain:
  assumes "d \<noteq> []" and "\<forall>c\<in>set d. plain c"
  shows "re_compile (pattern_of d) = Inr (map (\<lambda>c. [Literal c]) d)"
proof -
  from assms obtain c d' where d: "d = c # d'" "plain c" "\<forall>x\<in>set d'. plain x"
    by (cases d) auto
  show ?thesis
    using parse_pattern_plain [OF d(2,3), of "[]"] d(1)
    by (simp add: re_compile_def pattern_of_eq)
qed

section \<open>Splitting at plain delimiters\<close>

lemma match_branch_literals_Nil:
  "match_branch (map (\<lambda>c. [Literal c]) d) adv (prev, []) = None"
  by (induction d) simp_all

lemma match_branch_literals_Cons:
  "match_branch (map (\<lambda>c. [Literal c]) d) adv (prev, x # xs) =
     (if x \<in> set d then Some (Some x, xs) else None)"
  by (induction d) auto

lemma search_literals:
  "search (map (\<lambda>c. [Literal c]) d) adv prev rest =
     (case dropWhile (\<lambda>x. x \<notin> set d) rest of
        [] \<Rightarrow> None
      | y # ys \<Rightarrow> Some (takeWhile (\<lambda>x. x \<notin> set d) rest, (Some y, ys), False))"
proof (induction rest arbitrary: adv prev)
  case Nil
  show ?case by (simp add: match_branch_literals_Nil)
next
  case (Cons x xs)
  show ?case
  proof (cases "x \<in> set d")
    case True
    then show ?thesis by (simp add: match_branch_literals_Cons)
  next
    case False
    let ?P = "\<lambda>x. x \<notin> set d"
    have "search (map (\<lambda>c. [Literal c]) d) adv prev (x # xs) =
            (case search (map (\<lambda>c. [Literal c]) d) False (Some x) xs of
               None \<Rightarrow> None
             | Some (skipped, p', e) \<Rightarrow> Some (x # skipped, p', e))"
      using False by (simp only: search.simps match_branch_literals_Cons if_False option.case)
    also have "\<dots> = (case dropWhile ?P xs of
                        [] \<Rightarrow> None
                      | y # ys \<Rightarrow> Some (x # takeWhile ?P xs, (Some y, ys), False))"
      by (cases "dropWhile ?P xs") (simp_all only: Cons.IH list.case option.case prod.case)
    also have "\<dots> = (case dropWhile ?P (x # xs) of
                        [] \<Rightarrow> None
                      | y # ys \<Rightarrow> Some (takeWhile ?P (x # xs), (Some y, ys), False))"
      using False by (simp only: dropWhile.simps takeWhile.simps not_False_eq_True if_True)
    finally show ?thesis .
  qed
qed

lemma spec_split_nonempty: "spec_split d s \<noteq> []"
  by (induction s) simp_all

lemma spec_split_no_delimiter: "\<forall>x\<in>set s. x \<notin> set d \<Longrightarrow> spec_split d s = [s]"
  by (induction s) simp_all

lemma spec_split_at_first:
  "\<forall>x\<in>set pre. x \<notin> set d \<Longrightarrow> y \<in> set d \<Longrightarrow>
     spec_split d (pre @ y # ys) = pre # spec_split d ys"
  by (induction pre) simp_all

lemma split_loop_literals:
  "split_loop (map (\<lambda>c. [Literal c]) d) adv prev rest = spec_split d rest"
proof (induction rest arbitrary: adv prev rule: length_induct)
  case (1 rest)
  let ?P = "\<lambda>x. x \<notin> set d"
  show ?case
  proof (cases "dropWhile ?P rest")
    case Nil
    then have "\<forall>x\<in>set rest. x \<notin> set d"
      by (simp add: dropWhile_eq_Nil_conv)
    then have "spec_split d rest = [rest]"
      by (rule spec_split_no_delimiter)
    moreover have "search (map (\<lambda>c. [Literal c]) d) adv prev rest = None"
      by (simp only: search_literals Nil list.case)
    ultimately show ?thesis
      by (subst split_loop.simps) simp
  next
    case (Cons y ys)
    have rest: "rest = takeWhile ?P rest @ y # ys"
      using Cons takeWhile_dropWhile_id [of ?P rest] by simp
    have y: "y \<in> set d"
      using Cons hd_dropWhile [of ?P rest] by force
    have pre: "\<forall>x\<in>set (takeWhile ?P rest). x \<notin> set d"
      using set_takeWhileD by fastforce
    have "length ys < length rest"
      by (subst rest) simp
    with 1 have IH: "split_loop (map (\<lambda>c. [Literal c]) d) False (Some y) ys = spec_split d ys"
      by blast
    have "spec_split d rest = takeWhile ?P rest # spec_split d ys"
      using spec_split_at_first [OF pre y, of ys] rest by simp
    moreover have "search (map (\<lambda>c. [Literal c]) d) adv prev rest =
        Some (takeWhile ?P rest, (Some y, ys), False)"
      by (simp only: search_literals Cons list.case)
    ultimately show ?thesis
      using IH by (subst split_loop.simps) simp
  qed
qed

lemma re_split_plain:
  assumes "d \<noteq> []" and "\<forall>c\<in>set d. plain c"
  shows "re_split (pattern_of d) (JStr s) = Inr (spec_split d s)"
  by (simp add: re_split_def re_compile_plain [OF assms] split_loop_literals)

lemma join_Cons_nonempty: "ys \<noteq> [] \<Longrightarrow> join sep (x # ys) = x @ sep @ join sep ys"
  by (cases ys) simp_all

lemma join_spec_split_single: "join [c] (spec_split [c] s) = s"
proof (induction s)
  case Nil
  show ?case by simp
next
  case (Cons x xs)
  obtain h t where ht: "spec_split [c] xs = h # t"
    using spec_split_nonempty [of "[c]" xs] by (cases "spec_split [c] xs") auto
  show ?case
  proof (cases "x = c")
    case True
    with Cons show ?thesis
      by (simp add: join_Cons_nonempty spec_split_nonempty)
  next
    case False
    have "join [c] ((x # h) # t) = x # join [c] (h # t)"
      by (cases t) simp_all
    with False Cons ht show ?thesis by simp
  qed
qed

section \<open>The body after its arguments\<close>

lemma escape_errors: "escape c r = Inl err \<Longrightarrow> err = ReError \<or> err = Unmodelled"
  unfolding escape_def by (simp split: if_splits list.splits)

lemma parse_errors: "parse p cur = Inl err \<Longrightarrow> err = ReError \<or> err = Unmodelled"
  by (induction p cur rule: parse.induct)
    (auto split: if_splits sum.splits dest: escape_errors)

lemma re_compile_pattern_cases:
  "re_compile (pattern_of d) = Inl ReError \<or> (\<exists>rx. re_compile (pattern_of d) = Inr rx)"
proof (cases "re_compile (pattern_of d)")
  case (Inl err)
  with parse_errors [of "pattern_of d" "[]" err] re_compile_pattern_modelled [of d]
  show ?thesis by (auto simp: re_compile_def)
next
  case (Inr rx)
  then show ?thesis by simp
qed

lemma re_split_not_str:
  "\<not> is_str v \<Longrightarrow>
     re_split (pattern_of d) v =
       Inl (if re_compile (pattern_of d) = Inl ReError then ReError else TypeError)"
  using re_compile_pattern_cases [of d]
  by (cases v) (auto simp: re_split_def)

lemma re_split_str_cases:
  "re_split (pattern_of d) (JStr s) = Inl ReError
     \<or> (\<exists>parts. re_split (pattern_of d) (JStr s) = Inr parts)"
  using re_compile_pattern_cases [of d]
  by (auto simp: re_split_def)

lemma eval_body_after_args:
  assumes "arg_list_eval (arg_list self) env = (Inr (), env1)"
    and "stack env1 = st @ [sv, dv]"
  shows "eval_body self env =
     (if \<not> is_str dv then (Inl ValueError, env1\<lparr>stack := st @ [sv]\<rparr>)
      else (case re_split (pattern_of (str_chars dv)) sv of
              Inl err \<Rightarrow> (Inl err, env1\<lparr>stack := st\<rparr>)
            | Inr parts \<Rightarrow> (Inr (), env1\<lparr>stack := st @ [JArr (map JStr parts)]\<rparr>)))"
  using assms
  by (simp add: eval_body_def stack_pop_def stack_append_def butlast_append split: sum.splits)

lemma arg_list_eval_pushes_one_each:
  "pushes_one_each al env \<Longrightarrow>
     \<exists>env1 vs. length vs = length al \<and> arg_list_eval al env = (Inr (), env1)
        \<and> stack env1 = stack env @ vs"
proof (induction al arbitrary: env)
  case Nil
  show ?case by simp
next
  case (Cons a al)
  from Cons.prems obtain env' where
    a: "a env = (Inr (), env')" and ne: "stack env' \<noteq> []"
    and bl: "butlast (stack env') = stack env" and rest: "pushes_one_each al env'"
    by (auto split: prod.splits sum.splits)
  from ne bl have st: "stack env' = stack env @ [last (stack env')]"
    using append_butlast_last_id [of "stack env'"] by simp
  from Cons.IH [OF rest] obtain env1 vs where
    vs: "length vs = length al" "arg_list_eval al env' = (Inr (), env1)"
      "stack env1 = stack env' @ vs"
    by blast
  have "arg_list_eval (a # al) env = (Inr (), env1)"
    using a vs(2) by simp
  moreover have "stack env1 = stack env @ (last (stack env') # vs)"
    using vs(3) st by simp
  moreover have "length (last (stack env') # vs) = length (a # al)"
    using vs(1) by simp
  ultimately show ?case
    by blast
qed

lemma arg_list_eval_literals:
  "arg_list_eval (map literal_arg vs) env = (Inr (), env\<lparr>stack := stack env @ vs\<rparr>)"
  by (induction vs arbitrary: env) (simp_all add: literal_arg_def stack_append_def)

lemma eval_body_literals:
  "eval_body \<lparr>states_name = n, arg_list = [literal_arg sv, literal_arg dv]\<rparr> env =
     (if \<not> is_str dv then (Inl ValueError, env\<lparr>stack := stack env @ [sv]\<rparr>)
      else (case re_split (pattern_of (str_chars dv)) sv of
              Inl err \<Rightarrow> (Inl err, env)
            | Inr parts \<Rightarrow> (Inr (), stack_append (JArr (map JStr parts)) env)))"
proof -
  let ?self = "\<lparr>states_name = n, arg_list = [literal_arg sv, literal_arg dv]\<rparr>"
  have "arg_list_eval (arg_list ?self) env = (Inr (), env\<lparr>stack := stack env @ [sv, dv]\<rparr>)"
    using arg_list_eval_literals [of "[sv, dv]" env] by simp
  from eval_body_after_args [OF this, of "stack env"] show ?thesis
    by (simp add: stack_append_def split: sum.splits)
qed

section \<open>The claims\<close>

text \<open>
  C1. The claim: for every string and every non-empty delimiter string the function
  splits at the occurrences of the delimiter's characters, each taken literally, letters
  and digits included. The code puts a backslash before every delimiter character, which
  leaves a character as it is only when it is no ASCII letter or digit (lemma
  \<open>re_split_plain\<close>). With the delimiter \<open>n\<close> the pattern means a line feed,
  and \<open>banana\<close> comes back whole where the claim asks for \<open>ba\<close>, \<open>a\<close>,
  \<open>a\<close>; with the delimiter \<open>x\<close> the pattern is rejected and the evaluation
  raises.
\<close>

theorem string_split_letter_delimiter:
  "eval_body \<lparr>states_name = StringSplitName,
       arg_list = [literal_arg (JStr ''banana''), literal_arg (JStr ''n'')]\<rparr> env
     = (Inr (), stack_append (JArr [JStr ''banana'']) env)
   \<and> spec_split ''n'' ''banana'' = [''ba'', ''a'', ''a'']
   \<and> eval_body \<lparr>states_name = StringSplitName,
       arg_list = [literal_arg (JStr ''axb''), literal_arg (JStr ''x'')]\<rparr> env
     = (Inl ReError, env)"
proof -
  have a: "re_split (pattern_of ''n'') (JStr ''banana'') = Inr [''banana'']"
    by code_simp
  have b: "spec_split ''n'' ''banana'' = [''ba'', ''a'', ''a'']"
    by simp
  have c: "re_split (pattern_of ''x'') (JStr ''axb'') = Inl ReError"
    by code_simp
  show ?thesis
    by (simp only: eval_body_literals a b c is_str.simps str_chars.simps) simp
qed

text \<open>
  C2. The claim: with the string \<open>abc\<close> and the empty delimiter string the
  evaluation succeeds and pushes the one-element sequence holding \<open>abc\<close>, which
  is what cutting at the characters of an empty delimiter string gives. The code joins no
  escapes into the empty pattern, which matches at every position of the subject, and
  pushes the five-element sequence of the empty string, \<open>a\<close>, \<open>b\<close>,
  \<open>c\<close> and the empty string.
\<close>

theorem string_split_empty_delimiter:
  "eval_body \<lparr>states_name = StringSplitName,
       arg_list = [literal_arg (JStr ''abc''), literal_arg (JStr '''')]\<rparr> env
     = (Inr (), stack_append (JArr [JStr '''', JStr ''a'', JStr ''b'', JStr ''c'', JStr '''']) env)
   \<and> pattern_of '''' = ''''
   \<and> spec_split '''' ''abc'' = [''abc'']"
proof -
  have a: "re_split (pattern_of '''') (JStr ''abc'') = Inr ['''', ''a'', ''b'', ''c'', '''']"
    by code_simp
  have b: "pattern_of '''' = ''''"
    by (simp add: pattern_of_def)
  have c: "spec_split '''' ''abc'' = [''abc'']"
    by simp
  have "eval_body \<lparr>states_name = StringSplitName,
       arg_list = [literal_arg (JStr ''abc''), literal_arg (JStr '''')]\<rparr> env
     = (Inr (), stack_append (JArr [JStr '''', JStr ''a'', JStr ''b'', JStr ''c'', JStr '''']) env)"
    using a by (simp only: eval_body_literals is_str.simps str_chars.simps) simp
  with b c show ?thesis
    by simp
qed

text \<open>
  C5. Evaluating the function on the string \<open>a,b;;c\<close> with the delimiter string
  \<open>,;\<close> pushes the sequence \<open>a\<close>, \<open>b\<close>, the empty string, \<open>c\<close>:
  two delimiters in a row give an empty segment between them.
\<close>

theorem string_split_adjacent_delimiters:
  "eval_body \<lparr>states_name = StringSplitName,
       arg_list = [literal_arg (JStr ''a,b;;c''), literal_arg (JStr '',;'')]\<rparr> env
     = (Inr (), stack_append (JArr [JStr ''a'', JStr ''b'', JStr '''', JStr ''c'']) env)"
proof -
  have "re_split (pattern_of '',;'') (JStr ''a,b;;c'') = Inr [''a'', ''b'', '''', ''c'']"
    by code_simp
  then show ?thesis
    by (simp only: eval_body_literals is_str.simps str_chars.simps) simp
qed

text \<open>
  C3. When the arguments have pushed a string operand that is not a string, the evaluation
  fails with an error. The error is the function's own \<open>ValueError\<close> when the
  delimiter operand is no string either; otherwise it is raised by the split itself, for
  the pattern when that is rejected and else for the subject's type.
\<close>

theorem string_split_non_string_subject:
  assumes "arg_list_eval (arg_list self) env =
             (Inr (), env\<lparr>stack := stack env @ [string, del_chars]\<rparr>)"
    and "\<not> is_str string"
  shows "fst (eval_body self env) =
           Inl (if \<not> is_str del_chars then ValueError
                else if re_compile (pattern_of (str_chars del_chars)) = Inl ReError then ReError
                else TypeError)"
  using eval_body_after_args [OF assms(1), of "stack env"] re_split_not_str [OF assms(2)]
  by simp

text \<open>C3 at the operands \<open>5\<close> and \<open>,\<close>.\<close>

theorem string_split_non_string_subject_witness:
  "\<not> is_str (JNum 5)
   \<and> fst (eval_body \<lparr>states_name = StringSplitName,
            arg_list = [literal_arg (JNum 5), literal_arg (JStr '','')]\<rparr>
            \<lparr>inp = JNull, stack = []\<rparr>) = Inl TypeError"
proof -
  let ?self = "\<lparr>states_name = StringSplitName,
     arg_list = [literal_arg (JNum 5), literal_arg (JStr '','')]\<rparr>"
  let ?env = "\<lparr>inp = JNull, stack = []\<rparr>"
  have h1: "arg_list_eval (arg_list ?self) ?env =
              (Inr (), ?env\<lparr>stack := stack ?env @ [JNum 5, JStr '','']\<rparr>)"
    by (simp add: literal_arg_def stack_append_def)
  have h2: "\<not> is_str (JNum 5)"
    by simp
  have c: "re_compile (pattern_of '','') \<noteq> Inl ReError"
    by code_simp
  from string_split_non_string_subject [OF h1 h2] c h2 show ?thesis
    by simp
qed

text \<open>
  C4, as stated, fails: with the operands \<open>abc\<close> and \<open>5\<close> on an empty stack
  the evaluation raises and leaves the string operand behind, so the stack is not back at
  the depth it had before the evaluation.
\<close>

theorem string_split_residue_counterexample:
  "fst (eval_body \<lparr>states_name = StringSplitName,
          arg_list = [literal_arg (JStr ''abc''), literal_arg (JNum 5)]\<rparr>
          \<lparr>inp = JNull, stack = []\<rparr>) = Inl ValueError
   \<and> stack (snd (eval_body \<lparr>states_name = StringSplitName,
          arg_list = [literal_arg (JStr ''abc''), literal_arg (JNum 5)]\<rparr>
          \<lparr>inp = JNull, stack = []\<rparr>)) = [JStr ''abc'']
   \<and> length (stack (snd (eval_body \<lparr>states_name = StringSplitName,
          arg_list = [literal_arg (JStr ''abc''), literal_arg (JNum 5)]\<rparr>
          \<lparr>inp = JNull, stack = []\<rparr>))) \<noteq> length (stack \<lparr>inp = JNull, stack = []\<rparr>)"
  by (simp only: eval_body_literals is_str.simps) simp

text \<open>
  C4, amended. When the arguments have pushed the two operands: a successful evaluation
  leaves exactly the single result value on top of the stack as it was before the
  evaluation. A failing evaluation undoes nothing: when the delimiter operand is not a
  string, the evaluation fails with the string operand still on the stack, one entry
  deeper than before the evaluation; when it fails later, in the split, both operands
  have been popped and the stack is as it was before the evaluation.
\<close>

theorem string_split_stack_after:
  assumes "arg_list_eval (arg_list self) env =
             (Inr (), env\<lparr>stack := stack env @ [string, del_chars]\<rparr>)"
  shows "(\<forall>env'. eval_body self env = (Inr (), env') \<longrightarrow>
            (\<exists>result. stack env' = stack env @ [result]))
       \<and> (\<forall>err env'. eval_body self env = (Inl err, env') \<longrightarrow>
            stack env' = (if is_str del_chars then stack env else stack env @ [string]))
       \<and> (\<not> is_str del_chars \<longrightarrow> (\<exists>env'. eval_body self env = (Inl ValueError, env')))"
  using eval_body_after_args [OF assms, of "stack env"]
  by (auto split: sum.splits)

text \<open>C4, amended, at the operands \<open>abc\<close> and \<open>5\<close> above one entry.\<close>

theorem string_split_stack_after_witness:
  "\<not> is_str (JNum 5)
   \<and> (\<exists>env'. eval_body \<lparr>states_name = StringSplitName,
            arg_list = [literal_arg (JStr ''abc''), literal_arg (JNum 5)]\<rparr>
            \<lparr>inp = JNull, stack = [JBool True]\<rparr> = (Inl ValueError, env')
          \<and> stack env' = [JBool True, JStr ''abc''])"
proof -
  let ?self = "\<lparr>states_name = StringSplitName,
     arg_list = [literal_arg (JStr ''abc''), literal_arg (JNum 5)]\<rparr>"
  let ?env = "\<lparr>inp = JNull, stack = [JBool True]\<rparr>"
  have h: "arg_list_eval (arg_list ?self) ?env =
             (Inr (), ?env\<lparr>stack := stack ?env @ [JStr ''abc'', JNum 5]\<rparr>)"
    by (simp add: literal_arg_def stack_append_def)
  note t = string_split_stack_after [OF h]
  have n: "\<not> is_str (JNum 5)"
    by simp
  from t n obtain env' where e: "eval_body ?self ?env = (Inl ValueError, env')"
    by blast
  with t n have "stack env' = stack ?env @ [JStr ''abc'']"
    by (metis (full_types))
  with e n show ?thesis
    by simp
qed

text \<open>
  C6. The operands are popped in reverse declaration order. The delimiter operand, pushed
  last, is popped first and tested: when it is not a string the evaluation fails with the
  function's error while the string operand, whatever it is, is still on the stack. Only
  when the delimiter operand is a string is the string operand popped too: the stack the
  evaluation leaves is then the one before the arguments, alone or under the result.
\<close>

theorem string_split_pop_order:
  assumes "arg_list_eval (arg_list self) env =
             (Inr (), env\<lparr>stack := stack env @ [string, del_chars]\<rparr>)"
  shows "(\<not> is_str del_chars \<longrightarrow>
            eval_body self env = (Inl ValueError, env\<lparr>stack := stack env @ [string]\<rparr>))
       \<and> (is_str del_chars \<longrightarrow>
            (\<exists>err. eval_body self env = (Inl err, env\<lparr>stack := stack env\<rparr>))
          \<or> (\<exists>parts. eval_body self env =
                (Inr (), env\<lparr>stack := stack env @ [JArr (map JStr parts)]\<rparr>)))"
  using eval_body_after_args [OF assms, of "stack env"]
  by (auto split: sum.splits)

text \<open>C6 at the operands \<open>7\<close> and \<open>5\<close>, and at \<open>7\<close> and \<open>,\<close>.\<close>

theorem string_split_pop_order_witness:
  "\<not> is_str (JNum 5)
   \<and> eval_body \<lparr>states_name = StringSplitName,
          arg_list = [literal_arg (JNum 7), literal_arg (JNum 5)]\<rparr>
          \<lparr>inp = JNull, stack = [JBool True]\<rparr>
       = (Inl ValueError, \<lparr>inp = JNull, stack = [JBool True, JNum 7]\<rparr>)
   \<and> is_str (JStr '','')
   \<and> eval_body \<lparr>states_name = StringSplitName,
          arg_list = [literal_arg (JNum 7), literal_arg (JStr '','')]\<rparr>
          \<lparr>inp = JNull, stack = [JBool True]\<rparr>
       = (Inl TypeError, \<lparr>inp = JNull, stack = [JBool True]\<rparr>)"
proof -
  let ?env = "\<lparr>inp = JNull, stack = [JBool True]\<rparr>"
  let ?f = "\<lparr>states_name = StringSplitName,
     arg_list = [literal_arg (JNum 7), literal_arg (JNum 5)]\<rparr>"
  let ?g = "\<lparr>states_name = StringSplitName,
     arg_list = [literal_arg (JNum 7), literal_arg (JStr '','')]\<rparr>"
  have hf: "arg_list_eval (arg_list ?f) ?env =
              (Inr (), ?env\<lparr>stack := stack ?env @ [JNum 7, JNum 5]\<rparr>)"
    by (simp add: literal_arg_def stack_append_def)
  have hg: "arg_list_eval (arg_list ?g) ?env =
              (Inr (), ?env\<lparr>stack := stack ?env @ [JNum 7, JStr '','']\<rparr>)"
    by (simp add: literal_arg_def stack_append_def)
  have t: "re_split (pattern_of '','') (JNum 7) = Inl TypeError"
    by code_simp
  have g: "eval_body ?g ?env = (Inl TypeError, ?env)"
    by (simp only: eval_body_literals is_str.simps str_chars.simps t) simp
  from string_split_pop_order [OF hf] string_split_pop_order [OF hg] g show ?thesis
    by simp
qed

text \<open>
  C7, as stated, fails: with the operands \<open>a,b\<close> and \<open>,\<close> pushed by the
  arguments above one entry, the evaluation succeeds and leaves two entries, the result on
  top; the depth of the stack after the evaluation is not the depth before it.
\<close>

theorem string_split_net_effect_counterexample:
  "pushes_one_each [literal_arg (JStr ''a,b''), literal_arg (JStr '','')]
       \<lparr>inp = JNull, stack = [JBool True]\<rparr>
   \<and> eval_body \<lparr>states_name = StringSplitName,
          arg_list = [literal_arg (JStr ''a,b''), literal_arg (JStr '','')]\<rparr>
          \<lparr>inp = JNull, stack = [JBool True]\<rparr>
       = (Inr (), \<lparr>inp = JNull, stack = [JBool True, JArr [JStr ''a'', JStr ''b'']]\<rparr>)
   \<and> length (stack \<lparr>inp = JNull, stack = [JBool True, JArr [JStr ''a'', JStr ''b'']]\<rparr>)
       \<noteq> length (stack \<lparr>inp = JNull, stack = [JBool True]\<rparr>)"
proof -
  have s: "re_split (pattern_of '','') (JStr ''a,b'') = Inr [''a'', ''b'']"
    by code_simp
  have "pushes_one_each [literal_arg (JStr ''a,b''), literal_arg (JStr '','')]
       \<lparr>inp = JNull, stack = [JBool True]\<rparr>"
    by (simp add: literal_arg_def stack_append_def)
  moreover have "eval_body \<lparr>states_name = StringSplitName,
          arg_list = [literal_arg (JStr ''a,b''), literal_arg (JStr '','')]\<rparr>
          \<lparr>inp = JNull, stack = [JBool True]\<rparr>
       = (Inr (), \<lparr>inp = JNull, stack = [JBool True, JArr [JStr ''a'', JStr ''b'']]\<rparr>)"
    by (simp only: eval_body_literals is_str.simps str_chars.simps s) (simp add: stack_append_def)
  ultimately show ?thesis
    by simp
qed

text \<open>
  C7, amended. For every evaluation environment in which the evaluation of the arguments
  pushes exactly one value per argument, a successful evaluation of a constructed
  function has, counted from the stack the arguments leave, a net effect of exactly pop 2,
  push 1: the arguments leave the two operands on the stack as it was, the evaluation
  leaves that stack with the result on top in their place, so the depth after the
  evaluation is the depth before it plus one, the result left for the caller, and all
  entries below the result are unchanged.
\<close>

theorem string_split_net_effect:
  assumes "StringSplit_init al = Inr self"
    and "pushes_one_each al env"
    and "eval_body self env = (Inr (), env')"
  shows "\<exists>env1 string del_chars result.
           arg_list_eval (arg_list self) env = (Inr (), env1)
         \<and> stack env1 = stack env @ [string, del_chars]
         \<and> env' = env1\<lparr>stack := stack env @ [result]\<rparr>
         \<and> stack env' = butlast (butlast (stack env1)) @ [result]
         \<and> length (stack env') = length (stack env1) - 2 + 1
         \<and> length (stack env') = length (stack env) + 1
         \<and> take (length (stack env)) (stack env') = stack env"
proof -
  from assms(1) have al: "arg_list self = al" and len: "length al = 2"
    by (auto simp: StringSplit_init_def arg_list_size_def Let_def split: if_splits)
  from arg_list_eval_pushes_one_each [OF assms(2)] len obtain env1 vs where
    vs: "length vs = 2" "arg_list_eval al env = (Inr (), env1)" "stack env1 = stack env @ vs"
    by auto
  from vs(1) obtain s d where sd: "vs = [s, d]"
    by (cases vs; cases "tl vs") auto
  have args: "arg_list_eval (arg_list self) env = (Inr (), env1)"
    using vs(2) al by simp
  have st: "stack env1 = stack env @ [s, d]"
    using vs(3) sd by simp
  from eval_body_after_args [OF args st] assms(3)
  obtain parts where "env' = env1\<lparr>stack := stack env @ [JArr (map JStr parts)]\<rparr>"
    by (auto split: if_splits sum.splits)
  with args st show ?thesis
    by (auto simp: butlast_append)
qed

text \<open>C7, amended, at an argument list whose first argument is the document, which it
  pushes when that is a string and over which it raises otherwise, and whose second is
  the literal \<open>,\<close>; the document is \<open>a,b\<close> and the stack holds one entry.\<close>

theorem string_split_net_effect_witness:
  "StringSplit_init
       [(\<lambda>env. if is_str (inp env) then (Inr (), stack_append (inp env) env)
                else (Inl ValueError, env)),
        literal_arg (JStr '','')]
     = Inr \<lparr>states_name = StringSplitName,
          arg_list =
            [(\<lambda>env. if is_str (inp env) then (Inr (), stack_append (inp env) env)
                     else (Inl ValueError, env)),
             literal_arg (JStr '','')]\<rparr>
   \<and> pushes_one_each
       [(\<lambda>env. if is_str (inp env) then (Inr (), stack_append (inp env) env)
                else (Inl ValueError, env)),
        literal_arg (JStr '','')]
       \<lparr>inp = JStr ''a,b'', stack = [JBool True]\<rparr>
   \<and> eval_body \<lparr>states_name = StringSplitName,
          arg_list =
            [(\<lambda>env. if is_str (inp env) then (Inr (), stack_append (inp env) env)
                     else (Inl ValueError, env)),
             literal_arg (JStr '','')]\<rparr>
          \<lparr>inp = JStr ''a,b'', stack = [JBool True]\<rparr>
       = (Inr (), \<lparr>inp = JStr ''a,b'', stack = [JBool True, JArr [JStr ''a'', JStr ''b'']]\<rparr>)
   \<and> length (stack \<lparr>inp = JStr ''a,b'', stack = [JBool True, JArr [JStr ''a'', JStr ''b'']]\<rparr>)
       = length (stack \<lparr>inp = JStr ''a,b'', stack = [JBool True]\<rparr>) + 1"
proof -
  let ?doc = "\<lambda>env. if is_str (inp env) then (Inr (), stack_append (inp env) env)
                    else (Inl ValueError, env)"
  let ?al = "[?doc, literal_arg (JStr '','')]"
  let ?self = "\<lparr>states_name = StringSplitName, arg_list = ?al\<rparr>"
  let ?env = "\<lparr>inp = JStr ''a,b'', stack = [JBool True]\<rparr>"
  let ?env1 = "\<lparr>inp = JStr ''a,b'', stack = [JBool True, JStr ''a,b'', JStr '','']\<rparr>"
  let ?env' = "\<lparr>inp = JStr ''a,b'', stack = [JBool True, JArr [JStr ''a'', JStr ''b'']]\<rparr>"
  have h1: "StringSplit_init ?al = Inr ?self"
    by (simp add: StringSplit_init_def arg_list_size_def)
  have h2: "pushes_one_each ?al ?env"
    by (simp add: literal_arg_def stack_append_def)
  have args: "arg_list_eval (arg_list ?self) ?env = (Inr (), ?env1)"
    by (simp add: literal_arg_def stack_append_def)
  have st: "stack ?env1 = [JBool True] @ [JStr ''a,b'', JStr '','']"
    by simp
  have s: "re_split (pattern_of '','') (JStr ''a,b'') = Inr [''a'', ''b'']"
    by code_simp
  have h3: "eval_body ?self ?env = (Inr (), ?env')"
    using eval_body_after_args [OF args st] s by simp
  from string_split_net_effect [OF h1 h2 h3]
  have "length (stack ?env') = length (stack ?env) + 1"
    by blast
  with h1 h2 h3 show ?thesis
    by blast
qed

text \<open>
  C8. Constructing the function fails with an error exactly when the argument list does
  not have size 2, and succeeds with that list otherwise. The body checks no arity again:
  with an argument list of any size whose evaluation leaves two strings on top of the
  stack, and a pattern that compiles, the body succeeds on these two.
\<close>

theorem string_split_arity_at_construction:
  "((\<exists>err. StringSplit_init al = Inl err) \<longleftrightarrow> arg_list_size al \<noteq> 2)
   \<and> (arg_list_size al = 2 \<longrightarrow>
        StringSplit_init al = Inr \<lparr>states_name = StringSplitName, arg_list = al\<rparr>)
   \<and> (arg_list_eval al' env = (Inr (), env1) \<and> stack env1 = st @ [JStr s, JStr d]
        \<and> re_split (pattern_of d) (JStr s) = Inr parts \<longrightarrow>
        eval_body \<lparr>states_name = n, arg_list = al'\<rparr> env =
          (Inr (), env1\<lparr>stack := st @ [JArr (map JStr parts)]\<rparr>))"
proof -
  have "(\<exists>err. StringSplit_init al = Inl err) \<longleftrightarrow> arg_list_size al \<noteq> 2"
    by (simp add: StringSplit_init_def)
  moreover have "arg_list_size al = 2 \<longrightarrow>
      StringSplit_init al = Inr \<lparr>states_name = StringSplitName, arg_list = al\<rparr>"
    by (simp add: StringSplit_init_def)
  moreover have "eval_body \<lparr>states_name = n, arg_list = al'\<rparr> env =
        (Inr (), env1\<lparr>stack := st @ [JArr (map JStr parts)]\<rparr>)"
    if a: "arg_list_eval al' env = (Inr (), env1)" and b: "stack env1 = st @ [JStr s, JStr d]"
      and c: "re_split (pattern_of d) (JStr s) = Inr parts"
  proof -
    have "arg_list_eval (arg_list \<lparr>states_name = n, arg_list = al'\<rparr>) env = (Inr (), env1)"
      using a by simp
    from eval_body_after_args [OF this b] c show ?thesis
      by simp
  qed
  ultimately show ?thesis
    by blast
qed

text \<open>C8 at argument lists of size 1 and 3; the body of the latter runs.\<close>

theorem string_split_arity_at_construction_witness:
  "StringSplit_init [literal_arg (JStr ''a,b'')] = Inl ValueError
   \<and> StringSplit_init [literal_arg (JNum 1), literal_arg (JStr ''a,b''), literal_arg (JStr '','')]
       = Inl ValueError
   \<and> eval_body \<lparr>states_name = StringSplitName,
          arg_list = [literal_arg (JNum 1), literal_arg (JStr ''a,b''), literal_arg (JStr '','')]\<rparr>
          \<lparr>inp = JNull, stack = []\<rparr>
       = (Inr (), \<lparr>inp = JNull, stack = [JNum 1, JArr [JStr ''a'', JStr ''b'']]\<rparr>)"
proof -
  let ?one = "[literal_arg (JStr ''a,b'')]"
  let ?three = "[literal_arg (JNum 1), literal_arg (JStr ''a,b''), literal_arg (JStr '','')]"
  let ?env = "\<lparr>inp = JNull, stack = []\<rparr>"
  let ?env1 = "\<lparr>inp = JNull, stack = [JNum 1, JStr ''a,b'', JStr '','']\<rparr>"
  have h1: "arg_list_eval ?three ?env = (Inr (), ?env1)"
    by (simp add: literal_arg_def stack_append_def)
  have h2: "stack ?env1 = [JNum 1] @ [JStr ''a,b'', JStr '','']"
    by simp
  have h3: "re_split (pattern_of '','') (JStr ''a,b'') = Inr [''a'', ''b'']"
    by code_simp
  have s1: "arg_list_size ?one \<noteq> 2" and s3: "arg_list_size ?three \<noteq> 2"
    by (simp_all add: arg_list_size_def)
  note t1 = string_split_arity_at_construction
      [of ?one ?three ?env ?env1 "[JNum 1]" "''a,b''" "'',''" "[''a'', ''b'']" StringSplitName]
  note t3 = string_split_arity_at_construction
      [of ?three ?three ?env ?env1 "[JNum 1]" "''a,b''" "'',''" "[''a'', ''b'']" StringSplitName]
  from t1 s1 obtain e1 where e1: "StringSplit_init ?one = Inl e1"
    by blast
  from t3 s3 obtain e3 where e3: "StringSplit_init ?three = Inl e3"
    by blast
  have v1: "e1 = ValueError" using e1
    by (simp add: StringSplit_init_def split: if_splits)
  have v3: "e3 = ValueError" using e3
    by (simp add: StringSplit_init_def split: if_splits)
  from t3 h1 h2 h3 have "eval_body \<lparr>states_name = StringSplitName, arg_list = ?three\<rparr> ?env =
      (Inr (), ?env1\<lparr>stack := [JNum 1] @ [JArr (map JStr [''a'', ''b''])]\<rparr>)"
    by blast
  with e1 e3 v1 v3 show ?thesis
    by simp
qed

text \<open>
  C9. For every string and every delimiter string of exactly one character that is no
  ASCII letter or digit, the evaluation succeeds and joining the segments it pushes with
  that character gives the string back.
\<close>

theorem string_split_join_round_trip:
  assumes "plain c"
    and "arg_list_eval (arg_list self) env =
           (Inr (), env\<lparr>stack := stack env @ [JStr s, JStr [c]]\<rparr>)"
  shows "\<exists>parts. eval_body self env = (Inr (), stack_append (JArr (map JStr parts)) env)
           \<and> join [c] parts = s"
proof -
  from assms(1) have "re_split (pattern_of [c]) (JStr s) = Inr (spec_split [c] s)"
    by (intro re_split_plain) simp_all
  with eval_body_after_args [OF assms(2), of "stack env"]
  have "eval_body self env = (Inr (), stack_append (JArr (map JStr (spec_split [c] s))) env)"
    by (simp add: stack_append_def)
  then show ?thesis
    using join_spec_split_single [of c s] by blast
qed

text \<open>C9 at the string \<open>,a,,b\<close> and the delimiter \<open>,\<close>.\<close>

theorem string_split_join_round_trip_witness:
  "plain CHR '',''
   \<and> (\<exists>parts. eval_body \<lparr>states_name = StringSplitName,
          arg_list = [literal_arg (JStr '',a,,b''), literal_arg (JStr '','')]\<rparr>
          \<lparr>inp = JNull, stack = []\<rparr>
        = (Inr (), \<lparr>inp = JNull, stack = [JArr (map JStr parts)]\<rparr>)
      \<and> join '','' parts = '',a,,b'')"
proof -
  let ?self = "\<lparr>states_name = StringSplitName,
     arg_list = [literal_arg (JStr '',a,,b''), literal_arg (JStr '','')]\<rparr>"
  let ?env = "\<lparr>inp = JNull, stack = []\<rparr>"
  have h1: "plain CHR '',''"
    by (simp add: plain_def ASCII_LETTERS_def DIGITS_def)
  have h2: "arg_list_eval (arg_list ?self) ?env =
              (Inr (), ?env\<lparr>stack := stack ?env @ [JStr '',a,,b'', JStr [CHR '','']]\<rparr>)"
    by (simp add: literal_arg_def stack_append_def)
  from string_split_join_round_trip [OF h1 h2] h1 show ?thesis
    by (simp add: stack_append_def)
qed

text \<open>
  C10. Two evaluations, of possibly different function objects in possibly different
  environments, whose stacks are equal and whose arguments push the same two values, end
  with the same outcome and with equal stacks, the pushed result included.
\<close>

theorem string_split_deterministic:
  assumes "arg_list_eval (arg_list f1) env1 =
             (Inr (), env1\<lparr>stack := stack env1 @ [string, del_chars]\<rparr>)"
    and "arg_list_eval (arg_list f2) env2 =
             (Inr (), env2\<lparr>stack := stack env2 @ [string, del_chars]\<rparr>)"
    and "stack env1 = stack env2"
  shows "fst (eval_body f1 env1) = fst (eval_body f2 env2)
       \<and> stack (snd (eval_body f1 env1)) = stack (snd (eval_body f2 env2))"
  using eval_body_after_args [OF assms(1), of "stack env1"]
    eval_body_after_args [OF assms(2), of "stack env2"] assms(3)
  by (simp split: sum.splits)

text \<open>C10 at two environments with different documents and two different argument lists.\<close>

theorem string_split_deterministic_witness:
  "stack \<lparr>inp = JNull, stack = [JBool True]\<rparr> = stack \<lparr>inp = JNum 3, stack = [JBool True]\<rparr>
   \<and> fst (eval_body \<lparr>states_name = StringSplitName,
            arg_list = [literal_arg (JStr ''a,b''), literal_arg (JStr '','')]\<rparr>
            \<lparr>inp = JNull, stack = [JBool True]\<rparr>)
     = fst (eval_body \<lparr>states_name = StringSplitName,
            arg_list = [(\<lambda>env. (Inr (), stack_append (JStr ''a,b'') env)),
                        (\<lambda>env. (Inr (), stack_append (JStr '','') env))]\<rparr>
            \<lparr>inp = JNum 3, stack = [JBool True]\<rparr>)
   \<and> stack (snd (eval_body \<lparr>states_name = StringSplitName,
            arg_list = [literal_arg (JStr ''a,b''), literal_arg (JStr '','')]\<rparr>
            \<lparr>inp = JNull, stack = [JBool True]\<rparr>))
     = stack (snd (eval_body \<lparr>states_name = StringSplitName,
            arg_list = [(\<lambda>env. (Inr (), stack_append (JStr ''a,b'') env)),
                        (\<lambda>env. (Inr (), stack_append (JStr '','') env))]\<rparr>
            \<lparr>inp = JNum 3, stack = [JBool True]\<rparr>))"
proof -
  let ?f1 = "\<lparr>states_name = StringSplitName,
     arg_list = [literal_arg (JStr ''a,b''), literal_arg (JStr '','')]\<rparr>"
  let ?f2 = "\<lparr>states_name = StringSplitName,
     arg_list = [(\<lambda>env. (Inr (), stack_append (JStr ''a,b'') env)),
                 (\<lambda>env. (Inr (), stack_append (JStr '','') env))]\<rparr>"
  let ?env1 = "\<lparr>inp = JNull, stack = [JBool True]\<rparr>"
  let ?env2 = "\<lparr>inp = JNum 3, stack = [JBool True]\<rparr>"
  have h1: "arg_list_eval (arg_list ?f1) ?env1 =
              (Inr (), ?env1\<lparr>stack := stack ?env1 @ [JStr ''a,b'', JStr '','']\<rparr>)"
    by (simp add: literal_arg_def stack_append_def)
  have h2: "arg_list_eval (arg_list ?f2) ?env2 =
              (Inr (), ?env2\<lparr>stack := stack ?env2 @ [JStr ''a,b'', JStr '','']\<rparr>)"
    by (simp add: stack_append_def)
  have h3: "stack ?env1 = stack ?env2"
    by simp
  from string_split_deterministic [OF h1 h2 h3] h3 show ?thesis
    by blast
qed

end
